theory Spec2Isabelle
  imports Main
begin

section \<open>Errors\<close>

text \<open>
  A Go \<^verbatim>\<open>error\<close> value. \<open>Err msg\<close> is an error made by \<^verbatim>\<open>errors.New\<close>, by
  \<^verbatim>\<open>fmt.Errorf\<close> without \<^verbatim>\<open>%w\<close>, or handed over by a library the repository calls.
  \<open>Wrap before cause after\<close> is \<^verbatim>\<open>fmt.Errorf("before%wafter", cause)\<close>: the
  cause stays reachable (\<^verbatim>\<open>errors.Unwrap\<close>) and its text is part of the message.
\<close>

datatype error = Err string | Wrap string error string

fun Error :: "error \<Rightarrow> string" where
  "Error (Err msg) = msg"
| "Error (Wrap before cause after) = before @ Error cause @ after"

fun Unwrap :: "error \<Rightarrow> error option" where
  "Unwrap (Err msg) = None"
| "Unwrap (Wrap before cause after) = Some cause"

section \<open>The log-level flag (package flag)\<close>

subsection \<open>Library functions the flag calls\<close>

text \<open>
  \<^verbatim>\<open>slog.Level\<close> is a Go \<^verbatim>\<open>int\<close> (64 bits); the four named levels are the
  constants of \<^verbatim>\<open>log/slog\<close>.
\<close>

type_synonym Level = int

definition LevelDebug :: Level where "LevelDebug = - 4"
definition LevelInfo :: Level where "LevelInfo = 0"
definition LevelWarn :: Level where "LevelWarn = 4"
definition LevelError :: Level where "LevelError = 8"

definition wrap64 :: "int \<Rightarrow> int" where
  "wrap64 i = (i + 2 ^ 63) mod 2 ^ 64 - 2 ^ 63"

text \<open>
  \<^verbatim>\<open>strings.ToUpper\<close> on the ASCII letters. Bytes from 0x80 on are left as they are
  here, where Go maps whole runes; \<open>SlogLevelValue_Set\<close> reaches this function only
  with one of the four ASCII names.
\<close>

definition upperByte :: "char \<Rightarrow> char" where
  "upperByte c =
     (if 97 \<le> (of_char c :: nat) \<and> (of_char c :: nat) \<le> 122
      then char_of ((of_char c :: nat) - 32) else c)"

definition ToUpper :: "string \<Rightarrow> string" where
  "ToUpper s = map upperByte s"

text \<open>
  \<^verbatim>\<open>strconv.Quote\<close> and the verb \<^verbatim>\<open>%q\<close>, for a string of printable ASCII
  characters without quote or backslash: the string between double quotes.
\<close>

definition Quote :: "string \<Rightarrow> string" where
  "Quote s = [CHR 0x22] @ s @ [CHR 0x22]"

text \<open>
  \<^verbatim>\<open>strconv.Atoi\<close>: an optional sign, then one decimal digit or more, the value in
  the range of a 64-bit \<^verbatim>\<open>int\<close>.
\<close>

definition isDigit :: "char \<Rightarrow> bool" where
  "isDigit c = (48 \<le> (of_char c :: nat) \<and> (of_char c :: nat) \<le> 57)"

definition digitsValue :: "string \<Rightarrow> int" where
  "digitsValue ds = foldl (\<lambda>acc c. 10 * acc + (int (of_char c) - 48)) 0 ds"

definition Atoi :: "string \<Rightarrow> error + int" where
  "Atoi s =
     (let (neg, ds) =
            (case s of
               c # rest \<Rightarrow>
                 if c = CHR ''-'' then (True, rest)
                 else if c = CHR ''+'' then (False, rest)
                 else (False, s)
             | [] \<Rightarrow> (False, s));
          n = (if neg then - digitsValue ds else digitsValue ds)
      in if ds = [] \<or> \<not> list_all isDigit ds
         then Inl (Err (''strconv.Atoi: parsing '' @ Quote s @ '': invalid syntax''))
         else if n < - (2 ^ 63) \<or> 2 ^ 63 \<le> n
         then Inl (Err (''strconv.Atoi: parsing '' @ Quote s @ '': value out of range''))
         else Inr n)"

text \<open>
  \<^verbatim>\<open>(*slog.Level).UnmarshalText\<close>: the text is a level name in any letter case,
  optionally followed by a signed offset (\<^verbatim>\<open>"INFO+2"\<close>). On a parse error the
  level is left as it was. The result is the level and the error, if any.
\<close>

definition UnmarshalText :: "Level \<Rightarrow> string \<Rightarrow> Level \<times> error option" where
  "UnmarshalText l s =
     (let name = takeWhile (\<lambda>c. c \<noteq> CHR ''+'' \<and> c \<noteq> CHR ''-'') s;
          suffix = dropWhile (\<lambda>c. c \<noteq> CHR ''+'' \<and> c \<noteq> CHR ''-'') s;
          off = (if suffix = [] then Inr 0 else Atoi suffix)
      in case off of
           Inl e \<Rightarrow> (l, Some (Wrap (''slog: level string '' @ Quote s @ '': '') e []))
         | Inr offset \<Rightarrow>
             (let u = ToUpper name;
                  base =
                    (if u = ''DEBUG'' then Some LevelDebug
                     else if u = ''INFO'' then Some LevelInfo
                     else if u = ''WARN'' then Some LevelWarn
                     else if u = ''ERROR'' then Some LevelError
                     else None)
              in case base of
                   None \<Rightarrow>
                     (l, Some (Wrap (''slog: level string '' @ Quote s @ '': '')
                                 (Err ''unknown name'') []))
                 | Some b \<Rightarrow> (wrap64 (b + offset), None)))"

text \<open>\<^verbatim>\<open>strings.Join\<close>.\<close>

fun strings_Join :: "string list \<Rightarrow> string \<Rightarrow> string" where
  "strings_Join [] sep = []"
| "strings_Join [x] sep = x"
| "strings_Join (x # y # ys) sep = x @ sep @ strings_Join (y # ys) sep"

subsection \<open>SlogLevelValue\<close>

record SlogLevelValue =
  Level :: Level

definition levelNames :: "string list" where
  "levelNames = [''debug'', ''info'', ''warn'', ''error'']"

text \<open>
  \<^verbatim>\<open>func (v *SlogLevelValue) Set(value string) error\<close>: the receiver is mutated in
  place, so the model returns the receiver after the call together with the returned
  error (\<open>None\<close> is \<^verbatim>\<open>nil\<close>). The error of \<^verbatim>\<open>UnmarshalText\<close> is dropped, as in
  the source; \<^verbatim>\<open>new(slog.Level)\<close> is the zero level.
\<close>

definition SlogLevelValue_Set :: "SlogLevelValue \<Rightarrow> string \<Rightarrow> SlogLevelValue \<times> error option" where
  "SlogLevelValue_Set v value =
     (if value \<in> set levelNames
      then (let level = fst (UnmarshalText 0 value) in (v\<lparr>Level := level\<rparr>, None))
      else (v, Some (Err (''invalid level '' @ value @ '': must be one of: ''
                          @ strings_Join levelNames '', ''))))"

definition SlogLevelValue_Get :: "SlogLevelValue \<Rightarrow> Level" where
  "SlogLevelValue_Get v = Level v"

section \<open>The changed-packages command (package main)\<close>

subsection \<open>Data of the libraries\<close>

text \<open>
  \<^verbatim>\<open>packages.Module\<close> and \<^verbatim>\<open>packages.Package\<close> of \<^verbatim>\<open>golang.org/x/tools/go/packages\<close>,
  with the fields the program reads. \<open>Imports\<close> is a Go map from import path to package;
  it is kept as a list of its entries, in the order one \<^verbatim>\<open>range\<close> statement visits
  them (Go fixes no order). \<open>Errors\<close> holds the text of each \<^verbatim>\<open>packages.Error\<close>.
\<close>

record Module =
  Path :: string

datatype Package = Package
  (PkgPath: string)
  (GoFiles: "string list")
  (OtherFiles: "string list")
  (EmbedFiles: "string list")
  (Imports: "(string \<times> Package) list")
  (Module: "Module option")
  (Errors: "string list")

text \<open>
  \<^verbatim>\<open>modfile.Require\<close> and \<^verbatim>\<open>modfile.File\<close> of \<^verbatim>\<open>golang.org/x/mod/modfile\<close>:
  \<open>Mod_Path\<close> and \<open>Mod_Version\<close> are \<^verbatim>\<open>req.Mod.Path\<close> and \<^verbatim>\<open>req.Mod.Version\<close>.
\<close>

record modfile_Require =
  Mod_Path :: string
  Mod_Version :: string

record modfile_File =
  Require :: "modfile_Require list"

text \<open>
  What lies outside the repository and is reached through library calls:
  \<^item> \<open>packages_Load dir\<close>: \<^verbatim>\<open>packages.Load\<close> with \<^verbatim>\<open>Dir: dir\<close> and the pattern \<^verbatim>\<open>./...\<close>;
  \<^item> \<open>filepath_Abs\<close> and \<open>filepath_Join\<close>: \<^verbatim>\<open>filepath.Abs\<close>, \<^verbatim>\<open>filepath.Join\<close> of two elements;
  \<^item> \<open>cmd_Run args\<close>: running the command line \<open>args\<close>; the result is the error of
    \<^verbatim>\<open>cmd.Run\<close> (if any), what was written to stdout and what was written to stderr;
  \<^item> \<open>modfile_Parse file data\<close>: \<^verbatim>\<open>modfile.Parse(file, data, nil)\<close>.
\<close>

record world =
  packages_Load :: "string \<Rightarrow> error + Package list"
  filepath_Abs :: "string \<Rightarrow> error + string"
  filepath_Join :: "string \<Rightarrow> string \<Rightarrow> string"
  cmd_Run :: "string list \<Rightarrow> error option \<times> string \<times> string"
  modfile_Parse :: "string \<Rightarrow> string \<Rightarrow> error + modfile_File"

subsection \<open>Library functions on strings and paths\<close>

text \<open>
  \<^verbatim>\<open>filepath.Base\<close> with the separator \<^verbatim>\<open>/\<close>: the empty path gives \<^verbatim>\<open>"."\<close>;
  trailing separators are stripped; the result is what follows the last separator
  left, or \<^verbatim>\<open>"/"\<close> when nothing is left.
\<close>

definition Base :: "string \<Rightarrow> string" where
  "Base path =
     (if path = [] then ''.''
      else
        (let stripped = rev (dropWhile (\<lambda>c. c = CHR ''/'') (rev path));
             elem = rev (takeWhile (\<lambda>c. c \<noteq> CHR ''/'') (rev stripped))
         in if elem = [] then ''/'' else elem))"

text \<open>\<^verbatim>\<open>strings.TrimSuffix\<close>.\<close>

definition TrimSuffix :: "string \<Rightarrow> string \<Rightarrow> string" where
  "TrimSuffix s suffix =
     (if length suffix \<le> length s \<and> drop (length s - length suffix) s = suffix
      then take (length s - length suffix) s else s)"

text \<open>
  \<^verbatim>\<open>strings.Split\<close>: the pieces of \<open>s\<close> between the occurrences of \<open>sep\<close>, found from
  the left without overlap. \<open>Split_go sep cur s\<close> has the piece read so far in \<open>cur\<close>,
  reversed. With an empty separator Go splits after each UTF-8 sequence; the model
  splits after each byte (the program always passes a separator of one byte).
\<close>

function Split_go :: "string \<Rightarrow> string \<Rightarrow> string \<Rightarrow> string list" where
  "Split_go sep cur [] = [rev cur]"
| "Split_go sep cur (c # cs) =
     (if sep \<noteq> [] \<and> take (length sep) (c # cs) = sep
      then rev cur # Split_go sep [] (drop (length sep) (c # cs))
      else Split_go sep (c # cur) cs)"
  by pat_completeness auto
termination
  by (relation "measure (\<lambda>(sep, cur, s). length s)") auto

definition Split :: "string \<Rightarrow> string \<Rightarrow> string list" where
  "Split s sep = (if sep = [] then map (\<lambda>c. [c]) s else Split_go sep [] s)"

definition NUL :: string where
  "NUL = [CHR 0x00]"

definition newline :: string where
  "newline = [CHR 0x0A]"

subsection \<open>Running git\<close>

definition runCmd :: "world \<Rightarrow> string list \<Rightarrow> error + string" where
  "runCmd w args =
     (case cmd_Run w args of
        (Some e, out, errOut) \<Rightarrow>
          Inl (Wrap (''running command: `'' @ strings_Join args '' '' @ ''`: '') e
                 (newline @ ''stderr: '' @ errOut))
      | (None, out, errOut) \<Rightarrow> Inr out)"

definition runGitCmd :: "world \<Rightarrow> string list \<Rightarrow> error + string" where
  "runGitCmd w args = runCmd w (''git'' # args)"

subsection \<open>Loading packages and listing changed files\<close>

definition loadLocalPackages :: "world \<Rightarrow> string \<Rightarrow> error + Package list" where
  "loadLocalPackages w modDir =
     (case packages_Load w modDir of
        Inl e \<Rightarrow> Inl (Wrap ''failed listing local packages: '' e [])
      | Inr pkgs \<Rightarrow>
          (case find (\<lambda>pkg. length (Errors pkg) \<noteq> 0) pkgs of
             Some pkg \<Rightarrow>
               Inl (Err (''failed querying package '' @ PkgPath pkg @ '': [''
                         @ strings_Join (Errors pkg) '' '' @ '']''))
           | None \<Rightarrow> Inr pkgs))"

definition getChangedFiles :: "world \<Rightarrow> string \<Rightarrow> string \<Rightarrow> string \<Rightarrow> error + string list" where
  "getChangedFiles w repoDir fromRef toRef =
     (case runGitCmd w [''-C'', repoDir, ''diff'', ''--name-only'', ''-z'', fromRef, toRef] of
        Inl e \<Rightarrow> Inl (Wrap ''listing changed files: '' e [])
      | Inr out \<Rightarrow> Inr (Split (TrimSuffix out NUL) NUL))"

subsection \<open>Changed third-party modules\<close>

definition readModFileAtRef :: "world \<Rightarrow> string \<Rightarrow> string \<Rightarrow> string \<Rightarrow> error + modfile_File" where
  "readModFileAtRef w repoDir modPath ref =
     (case runGitCmd w [''-C'', repoDir, ''show'', ref @ '':'' @ modPath] of
        Inl e \<Rightarrow> Inl (Wrap (''reading '' @ modPath @ '' at '' @ ref @ '': '') e [])
      | Inr modData \<Rightarrow>
          (case modfile_Parse w modPath modData of
             Inl e \<Rightarrow>
               Inl (Wrap (''parsing mod file '' @ modPath @ '' at '' @ ref @ '': '') e [])
           | Inr modFile \<Rightarrow> Inr modFile))"

text \<open>The result is the pair (current file, old file), as in the source.\<close>

definition readModFiles ::
  "world \<Rightarrow> string \<Rightarrow> string \<Rightarrow> string \<Rightarrow> string \<Rightarrow> error + (modfile_File \<times> modfile_File)" where
  "readModFiles w repoDir modPath fromRef toRef =
     (case readModFileAtRef w repoDir modPath fromRef of
        Inl e \<Rightarrow> Inl e
      | Inr oldModFile \<Rightarrow>
          (case readModFileAtRef w repoDir modPath toRef of
             Inl e \<Rightarrow> Inl e
           | Inr newModFile \<Rightarrow> Inr (newModFile, oldModFile)))"

text \<open>
  The two loops of \<^verbatim>\<open>getChangedMods\<close>: the first fills \<^verbatim>\<open>oldModMap\<close> (a later
  requirement of the same path overwrites an earlier one), the second adds to
  \<^verbatim>\<open>changedMods\<close>. A Go \<^verbatim>\<open>map[string]struct{}\<close> is a set of strings.
\<close>

definition oldModMap_of :: "modfile_Require list \<Rightarrow> (string \<rightharpoonup> modfile_Require)" where
  "oldModMap_of reqs = fold (\<lambda>req m. m(Mod_Path req \<mapsto> req)) reqs Map.empty"

definition changedMods_of ::
  "(string \<rightharpoonup> modfile_Require) \<Rightarrow> modfile_Require list \<Rightarrow> string set" where
  "changedMods_of oldModMap reqs =
     fold (\<lambda>req changedMods.
             case oldModMap (Mod_Path req) of
               Some old \<Rightarrow>
                 if Mod_Version req \<noteq> Mod_Version old
                 then insert (Mod_Path req) changedMods else changedMods
             | None \<Rightarrow> changedMods)
       reqs {}"

definition getChangedMods ::
  "world \<Rightarrow> string \<Rightarrow> string \<Rightarrow> string \<Rightarrow> string \<Rightarrow> error + string set" where
  "getChangedMods w modPath repoDir fromRef toRef =
     (case readModFiles w repoDir modPath fromRef toRef of
        Inl e \<Rightarrow> Inl e
      | Inr (curModFile, oldModFile) \<Rightarrow>
          Inr (changedMods_of (oldModMap_of (Require oldModFile)) (Require curModFile)))"

subsection \<open>Attributing files to packages\<close>

definition fileInPkg :: "world \<Rightarrow> Package \<Rightarrow> string \<Rightarrow> string \<Rightarrow> bool" where
  "fileInPkg w pkg repoDir path =
     (let absPath = filepath_Join w repoDir path
      in absPath \<in> set (GoFiles pkg) \<or> absPath \<in> set (OtherFiles pkg)
         \<or> absPath \<in> set (EmbedFiles pkg))"

text \<open>
  The inner loop of \<^verbatim>\<open>collectChanges\<close>: the packages are visited in order, the
  first one that lists the file is recorded and the loop is left (\<^verbatim>\<open>break\<close>).
\<close>

fun attributeFile :: "world \<Rightarrow> Package list \<Rightarrow> string \<Rightarrow> string \<Rightarrow> string set \<Rightarrow> string set" where
  "attributeFile w [] repoDir path changedPackages = changedPackages"
| "attributeFile w (pkg # pkgs) repoDir path changedPackages =
     (if fileInPkg w pkg repoDir path then insert (PkgPath pkg) changedPackages
      else attributeFile w pkgs repoDir path changedPackages)"

text \<open>
  The outer loop of \<^verbatim>\<open>collectChanges\<close>, with the two maps as they are before the
  next path is visited; an error of \<^verbatim>\<open>getChangedMods\<close> leaves the function at once.
\<close>

fun collectChanges_loop ::
  "world \<Rightarrow> string list \<Rightarrow> Package list \<Rightarrow> string \<Rightarrow> string \<Rightarrow> string \<Rightarrow>
   string set \<Rightarrow> string set \<Rightarrow> error + (string set \<times> string set)" where
  "collectChanges_loop w [] pkgs repoDir fromRef toRef changedPackages changedMods =
     Inr (changedPackages, changedMods)"
| "collectChanges_loop w (path # rest) pkgs repoDir fromRef toRef changedPackages changedMods =
     (if Base path = ''go.mod''
      then
        (case getChangedMods w path repoDir fromRef toRef of
           Inl e \<Rightarrow> Inl e
         | Inr changedMods' \<Rightarrow>
             collectChanges_loop w rest pkgs repoDir fromRef toRef
               (attributeFile w pkgs repoDir path changedPackages) changedMods')
      else
        collectChanges_loop w rest pkgs repoDir fromRef toRef
          (attributeFile w pkgs repoDir path changedPackages) changedMods)"

definition collectChanges ::
  "world \<Rightarrow> string list \<Rightarrow> Package list \<Rightarrow> string \<Rightarrow> string \<Rightarrow> string \<Rightarrow>
   error + (string set \<times> string set)" where
  "collectChanges w changedFiles pkgs repoDir fromRef toRef =
     collectChanges_loop w changedFiles pkgs repoDir fromRef toRef {} {}"

subsection \<open>Propagation along imports\<close>

fun isChangedFromImports ::
  "string \<Rightarrow> (string \<times> Package) list \<Rightarrow> string set \<Rightarrow> string set \<Rightarrow> bool" where
  "isChangedFromImports pkgPath [] changedMods changedPackages = False"
| "isChangedFromImports pkgPath ((importPath, importPkg) # imports) changedMods changedPackages =
     (if importPath \<in> changedPackages then True
      else
        (case Module importPkg of
           Some module \<Rightarrow>
             if Path module \<in> changedMods then True
             else isChangedFromImports pkgPath imports changedMods changedPackages
         | None \<Rightarrow> isChangedFromImports pkgPath imports changedMods changedPackages))"

text \<open>
  The last loop of \<^verbatim>\<open>getChangedPackages\<close>: one pass over the package list, in
  order, growing \<^verbatim>\<open>changedPackages\<close>.
\<close>

fun propagate :: "Package list \<Rightarrow> string set \<Rightarrow> string set \<Rightarrow> string set" where
  "propagate [] changedMods changedPackages = changedPackages"
| "propagate (pkg # pkgs) changedMods changedPackages =
     (if PkgPath pkg \<in> changedPackages then propagate pkgs changedMods changedPackages
      else if isChangedFromImports (PkgPath pkg) (Imports pkg) changedMods changedPackages
      then propagate pkgs changedMods (insert (PkgPath pkg) changedPackages)
      else propagate pkgs changedMods changedPackages)"

text \<open>
  \<^verbatim>\<open>getChangedPackages\<close> returns \<^verbatim>\<open>maps.Keys(changedPackages)\<close>, a slice in no
  defined order: the model returns the set of keys. When \<^verbatim>\<open>filepath.Abs\<close> fails,
  \<^verbatim>\<open>repoDir\<close> has already been overwritten by its (empty) result.
\<close>

definition getChangedPackages ::
  "world \<Rightarrow> string \<Rightarrow> string \<Rightarrow> string \<Rightarrow> string \<Rightarrow> error + string set" where
  "getChangedPackages w repoDir modDir fromRef toRef =
     (case loadLocalPackages w modDir of
        Inl e \<Rightarrow> Inl e
      | Inr pkgs \<Rightarrow>
          (case filepath_Abs w repoDir of
             Inl e \<Rightarrow> Inl (Wrap (''failed building absolute path for '' @ [] @ '': '') e [])
           | Inr absRepoDir \<Rightarrow>
               (case getChangedFiles w absRepoDir fromRef toRef of
                  Inl e \<Rightarrow> Inl e
                | Inr changedFiles \<Rightarrow>
                    (case collectChanges w changedFiles pkgs absRepoDir fromRef toRef of
                       Inl e \<Rightarrow> Inl e
                     | Inr (changedPackages, changedMods) \<Rightarrow>
                         Inr (propagate pkgs changedMods changedPackages)))))"

text \<open>
  \<^verbatim>\<open>printChangedPackages\<close>: the lines written to \<^verbatim>\<open>out\<close> (one per package, in no
  defined order, hence a set) and the returned error.
\<close>

definition printChangedPackages ::
  "world \<Rightarrow> string \<Rightarrow> string \<Rightarrow> string \<Rightarrow> string \<Rightarrow> string set \<times> error option" where
  "printChangedPackages w repoDir modDir fromRef toRef =
     (case getChangedPackages w repoDir modDir fromRef toRef of
        Inl e \<Rightarrow> ({}, Some (Wrap ''getting changed packages: '' e []))
      | Inr packages \<Rightarrow> (packages, None))"

section \<open>Notions of the specification\<close>

text \<open>
  The order the specification asks of the package list: no package imports, by
  import path, itself or a package listed after it (dependencies come before
  dependents, and there is no cycle).
\<close>

fun topological :: "Package list \<Rightarrow> bool" where
  "topological [] = True"
| "topological (pkg # pkgs) =
     ((\<forall>q \<in> set (pkg # pkgs). PkgPath q \<notin> fst ` set (Imports pkg)) \<and> topological pkgs)"

text \<open>
  A dependency chain \<open>[A, B, \<dots>, C]\<close>: each package but the last is one of the listed
  packages and has the import path of its successor among its imports.
\<close>

fun importChain :: "Package list \<Rightarrow> Package list \<Rightarrow> bool" where
  "importChain pkgs [] = True"
| "importChain pkgs [p] = True"
| "importChain pkgs (p # q # chain) =
     (p \<in> set pkgs \<and> PkgPath q \<in> fst ` set (Imports p) \<and> importChain pkgs (q # chain))"

text \<open>
  Two runs on identical inputs may still visit a Go map in different orders. What the
  program reads of the \<^verbatim>\<open>Imports\<close> map of a package is, for each entry, the import
  path and the module of the imported package; \<open>sameInput\<close> relates two views of one
  package that differ at most in the order (or repetition) of these entries.
\<close>

definition importEntries :: "Package \<Rightarrow> (string \<times> Module option) set" where
  "importEntries pkg =
     (\<lambda>(importPath, importPkg). (importPath, Module importPkg)) ` set (Imports pkg)"

definition sameInput :: "Package \<Rightarrow> Package \<Rightarrow> bool" where
  "sameInput p q \<longleftrightarrow>
     PkgPath p = PkgPath q \<and> GoFiles p = GoFiles q \<and> OtherFiles p = OtherFiles q
     \<and> EmbedFiles p = EmbedFiles q \<and> importEntries p = importEntries q
     \<and> Module p = Module q \<and> Errors p = Errors q"

section \<open>A small repository to run the program on\<close>

text \<open>
  Three local packages, listed with dependencies first: \<open>r/a\<close> imports \<open>r/b\<close> and the
  third-party package \<open>x/foo\<close> of module \<open>x\<close>; \<open>r/b\<close> imports \<open>r/c\<close>. The repository
  is at \<open>/r\<close>. Its \<open>go.mod\<close> requires \<open>x\<close> at \<open>1\<close> in revision \<open>v1\<close> and at \<open>2\<close> in
  revision \<open>v2\<close>; \<open>sub/go.mod\<close> requires \<open>y\<close> at \<open>1\<close> in both; \<open>bad/go.mod\<close> does not
  parse at \<open>v2\<close>; \<open>gone/go.mod\<close> is not there at \<open>v2\<close>. The world takes what
  \<^verbatim>\<open>git diff\<close> prints.
\<close>

definition ex_foo :: Package where
  "ex_foo = Package ''x/foo'' [] [] [] [] (Some \<lparr>Path = ''x''\<rparr>) []"

definition ex_c :: Package where
  "ex_c = Package ''r/c'' [''/r/c/c.go''] [] [] [] None []"

definition ex_b :: Package where
  "ex_b = Package ''r/b'' [''/r/b/b.go''] [] [''/r/b/data.txt''] [(''r/c'', ex_c)] None []"

definition ex_a :: Package where
  "ex_a = Package ''r/a'' [''/r/a/a.go''] [''/r/a/a.s''] []
            [(''r/b'', ex_b), (''x/foo'', ex_foo)] None []"

definition ex_pkgs :: "Package list" where
  "ex_pkgs = [ex_c, ex_b, ex_a]"

definition ex_show :: "string \<Rightarrow> error option \<times> string \<times> string" where
  "ex_show spec =
     (if spec \<in> set [''v1:go.mod'', ''v2:go.mod'', ''v1:sub/go.mod'', ''v2:sub/go.mod'',
                      ''v1:bad/go.mod'', ''v2:bad/go.mod'', ''v1:gone/go.mod'']
      then (None, spec, [])
      else (Some (Err ''exit status 128''), [], ''fatal: path does not exist''))"

definition ex_parse :: "string \<Rightarrow> string \<Rightarrow> error + modfile_File" where
  "ex_parse file data =
     (if data = ''v1:go.mod'' then Inr \<lparr>Require = [\<lparr>Mod_Path = ''x'', Mod_Version = ''1''\<rparr>]\<rparr>
      else if data = ''v2:go.mod'' then Inr \<lparr>Require = [\<lparr>Mod_Path = ''x'', Mod_Version = ''2''\<rparr>]\<rparr>
      else if data = ''v2:bad/go.mod'' then Inl (Err ''unknown directive'')
      else Inr \<lparr>Require = [\<lparr>Mod_Path = ''y'', Mod_Version = ''1''\<rparr>]\<rparr>)"

definition ex_world :: "string \<Rightarrow> world" where
  "ex_world diffOut =
     \<lparr>packages_Load = (\<lambda>dir. Inr ex_pkgs),
      filepath_Abs = (\<lambda>dir. Inr ''/r''),
      filepath_Join = (\<lambda>dir path. if path = [] then dir else dir @ ''/'' @ path),
      cmd_Run = (\<lambda>args. if length args = 8 then (None, diffOut, [])
                         else if length args = 5 then ex_show (last args)
                         else (Some (Err ''exit status 1''), [], [])),
      modfile_Parse = ex_parse\<rparr>"

section \<open>Theorems\<close>

lemma UnmarshalText_names:
  "UnmarshalText l ''debug'' = (LevelDebug, None)"
  "UnmarshalText l ''info'' = (LevelInfo, None)"
  "UnmarshalText l ''warn'' = (LevelWarn, None)"
  "UnmarshalText l ''error'' = (LevelError, None)"
  by code_simp+

text \<open>
  Claim C10. \<open>SlogLevelValue_Set\<close> returns \<^verbatim>\<open>nil\<close> exactly when its argument is one of
  \<^verbatim>\<open>"debug"\<close>, \<^verbatim>\<open>"info"\<close>, \<^verbatim>\<open>"warn"\<close>, \<^verbatim>\<open>"error"\<close>, and then the stored level is
  the slog level of that name; for every other string it returns an error and the
  receiver is what it was before the call.
\<close>

theorem SlogLevelValue_Set_atomic:
  "SlogLevelValue_Set v ''debug'' = (v\<lparr>Level := LevelDebug\<rparr>, None)
   \<and> SlogLevelValue_Set v ''info'' = (v\<lparr>Level := LevelInfo\<rparr>, None)
   \<and> SlogLevelValue_Set v ''warn'' = (v\<lparr>Level := LevelWarn\<rparr>, None)
   \<and> SlogLevelValue_Set v ''error'' = (v\<lparr>Level := LevelError\<rparr>, None)
   \<and> (snd (SlogLevelValue_Set v value) = None
        \<longleftrightarrow> value \<in> {''debug'', ''info'', ''warn'', ''error''})
   \<and> (value \<notin> {''debug'', ''info'', ''warn'', ''error''}
        \<longrightarrow> (\<exists>e. SlogLevelValue_Set v value = (v, Some e)))"
  by (simp add: SlogLevelValue_Set_def levelNames_def UnmarshalText_names)

theorem SlogLevelValue_Set_atomic_witness:
  "''InFO'' \<notin> {''debug'', ''info'', ''warn'', ''error''}
   \<and> (\<exists>e. SlogLevelValue_Set \<lparr>Level = LevelWarn\<rparr> ''InFO'' = (\<lparr>Level = LevelWarn\<rparr>, Some e))
   \<and> SlogLevelValue_Set \<lparr>Level = LevelWarn\<rparr> ''error'' = (\<lparr>Level = LevelError\<rparr>, None)"
  using SlogLevelValue_Set_atomic [of "\<lparr>Level = LevelWarn\<rparr>" "''InFO''"]
  by simp

subsection \<open>The manifest delta\<close>

lemma oldModMap_fold_last:
  "fold (\<lambda>req m. m(Mod_Path req \<mapsto> req)) reqs m0 k =
     (case find (\<lambda>r. Mod_Path r = k) (rev reqs) of Some r \<Rightarrow> Some r | None \<Rightarrow> m0 k)"
  by (induction reqs rule: rev_induct) auto

lemma find_distinct_key:
  "distinct (map f xs) \<Longrightarrow> find (\<lambda>r. f r = k) xs = Some r \<longleftrightarrow> r \<in> set xs \<and> f r = k"
  by (induction xs) (auto simp: image_iff)

lemma oldModMap_of_distinct:
  assumes "distinct (map Mod_Path reqs)"
  shows "oldModMap_of reqs k = Some r \<longleftrightarrow> r \<in> set reqs \<and> Mod_Path r = k"
proof -
  have "oldModMap_of reqs k = find (\<lambda>r. Mod_Path r = k) (rev reqs)"
    unfolding oldModMap_of_def by (simp add: oldModMap_fold_last split: option.splits)
  moreover have "distinct (map Mod_Path (rev reqs))"
    using assms by (simp add: rev_map [symmetric])
  ultimately show ?thesis
    using find_distinct_key [of Mod_Path "rev reqs" k r] by simp
qed

lemma find_Some_in: "find P xs = Some r \<Longrightarrow> r \<in> set xs \<and> P r"
  by (induction xs) (auto split: if_splits)

lemma oldModMap_of_Some_in:
  assumes "oldModMap_of reqs k = Some r"
  shows "r \<in> set reqs \<and> Mod_Path r = k"
proof -
  have "find (\<lambda>r. Mod_Path r = k) (rev reqs) = Some r"
    using assms unfolding oldModMap_of_def
    by (simp add: oldModMap_fold_last split: option.splits)
  from find_Some_in [OF this] show ?thesis by simp
qed

lemma changedMods_fold_iff:
  "m \<in> fold (\<lambda>req changedMods.
             case oldModMap (Mod_Path req) of
               Some old \<Rightarrow>
                 if Mod_Version req \<noteq> Mod_Version old
                 then insert (Mod_Path req) changedMods else changedMods
             | None \<Rightarrow> changedMods) reqs S
   \<longleftrightarrow> m \<in> S \<or> (\<exists>req\<in>set reqs. Mod_Path req = m \<and>
           (\<exists>old. oldModMap m = Some old \<and> Mod_Version req \<noteq> Mod_Version old))"
  by (induction reqs arbitrary: S) (auto split: option.splits)

lemma changedMods_of_iff:
  "m \<in> changedMods_of oldModMap reqs
   \<longleftrightarrow> (\<exists>req\<in>set reqs. Mod_Path req = m \<and>
           (\<exists>old. oldModMap m = Some old \<and> Mod_Version req \<noteq> Mod_Version old))"
  unfolding changedMods_of_def by (simp add: changedMods_fold_iff)

text \<open>
  Claim C2. When both snapshots of the manifest are read, the delta computed by
  \<open>getChangedMods\<close> holds no module that is missing from the prior snapshot (newly
  added) and none that is missing from the current snapshot (removed); and, module
  names being unique in the prior snapshot, a module name is in the delta if and only
  if it is required in both snapshots with different version strings.
\<close>

theorem getChangedMods_delta:
  assumes "readModFiles w repoDir modPath fromRef toRef = Inr (cur, old)"
  shows "\<exists>delta. getChangedMods w modPath repoDir fromRef toRef = Inr delta
      \<and> (\<forall>m. m \<notin> Mod_Path ` set (Require old) \<longrightarrow> m \<notin> delta)
      \<and> (\<forall>m. m \<notin> Mod_Path ` set (Require cur) \<longrightarrow> m \<notin> delta)
      \<and> (distinct (map Mod_Path (Require old)) \<longrightarrow>
           (\<forall>m. m \<in> delta \<longleftrightarrow>
              (\<exists>ro\<in>set (Require old). \<exists>rc\<in>set (Require cur).
                 Mod_Path ro = m \<and> Mod_Path rc = m \<and> Mod_Version rc \<noteq> Mod_Version ro)))"
proof -
  define delta where "delta = changedMods_of (oldModMap_of (Require old)) (Require cur)"
  have res: "getChangedMods w modPath repoDir fromRef toRef = Inr delta"
    using assms by (simp add: getChangedMods_def delta_def)
  have removed: "m \<notin> delta" if "m \<notin> Mod_Path ` set (Require old)" for m
  proof
    assume "m \<in> delta"
    then obtain o' where "oldModMap_of (Require old) m = Some o'"
      unfolding delta_def changedMods_of_iff by blast
    from oldModMap_of_Some_in [OF this] that show False by blast
  qed
  have added: "m \<notin> delta" if "m \<notin> Mod_Path ` set (Require cur)" for m
  proof
    assume "m \<in> delta"
    then obtain rc where "rc \<in> set (Require cur)" "Mod_Path rc = m"
      unfolding delta_def changedMods_of_iff by blast
    with that show False by blast
  qed
  have both: "m \<in> delta \<longleftrightarrow>
              (\<exists>ro\<in>set (Require old). \<exists>rc\<in>set (Require cur).
                 Mod_Path ro = m \<and> Mod_Path rc = m \<and> Mod_Version rc \<noteq> Mod_Version ro)"
    if d: "distinct (map Mod_Path (Require old))" for m
  proof
    assume "m \<in> delta"
    then obtain rc ro where rc: "rc \<in> set (Require cur)" "Mod_Path rc = m"
      and ro: "oldModMap_of (Require old) m = Some ro" "Mod_Version rc \<noteq> Mod_Version ro"
      unfolding delta_def changedMods_of_iff by blast
    from oldModMap_of_Some_in [OF ro(1)] rc ro(2)
    show "\<exists>ro\<in>set (Require old). \<exists>rc\<in>set (Require cur).
                 Mod_Path ro = m \<and> Mod_Path rc = m \<and> Mod_Version rc \<noteq> Mod_Version ro"
      by blast
  next
    assume "\<exists>ro\<in>set (Require old). \<exists>rc\<in>set (Require cur).
                 Mod_Path ro = m \<and> Mod_Path rc = m \<and> Mod_Version rc \<noteq> Mod_Version ro"
    then obtain ro rc where ro: "ro \<in> set (Require old)" "Mod_Path ro = m"
      and rc: "rc \<in> set (Require cur)" "Mod_Path rc = m" "Mod_Version rc \<noteq> Mod_Version ro"
      by blast
    from ro have "oldModMap_of (Require old) m = Some ro"
      using oldModMap_of_distinct [OF d, of m ro] by simp
    with rc show "m \<in> delta"
      unfolding delta_def changedMods_of_iff by blast
  qed
  from res removed added both show ?thesis
    by (intro exI [of _ delta] conjI allI impI) 
qed

theorem getChangedMods_delta_witness:
  "readModFiles (ex_world []) ''/r'' ''go.mod'' ''v1'' ''v2''
     = Inr (\<lparr>Require = [\<lparr>Mod_Path = ''x'', Mod_Version = ''2''\<rparr>]\<rparr>,
            \<lparr>Require = [\<lparr>Mod_Path = ''x'', Mod_Version = ''1''\<rparr>]\<rparr>)
   \<and> (\<exists>delta. getChangedMods (ex_world []) ''go.mod'' ''/r'' ''v1'' ''v2'' = Inr delta
         \<and> ''x'' \<in> delta \<and> ''y'' \<notin> delta)"
proof -
  have h: "readModFiles (ex_world []) ''/r'' ''go.mod'' ''v1'' ''v2''
     = Inr (\<lparr>Require = [\<lparr>Mod_Path = ''x'', Mod_Version = ''2''\<rparr>]\<rparr>,
            \<lparr>Require = [\<lparr>Mod_Path = ''x'', Mod_Version = ''1''\<rparr>]\<rparr>)"
    by code_simp
  from getChangedMods_delta [OF h] obtain delta where
    d: "getChangedMods (ex_world []) ''go.mod'' ''/r'' ''v1'' ''v2'' = Inr delta"
    and iff: "\<forall>m. m \<in> delta \<longleftrightarrow> ''x'' = m"
    by (elim exE conjE) simp
  have "''x'' \<in> delta" "''y'' \<notin> delta"
    using iff by simp_all
  with h d show ?thesis by simp
qed

subsection \<open>File attribution and propagation\<close>

lemma attributeFile_find:
  "attributeFile w pkgs repoDir path cp =
     (case find (\<lambda>pkg. fileInPkg w pkg repoDir path) pkgs of
        None \<Rightarrow> cp | Some pkg \<Rightarrow> insert (PkgPath pkg) cp)"
  by (induction pkgs) simp_all

lemma attributeFile_mono: "cp \<subseteq> attributeFile w pkgs repoDir path cp"
  by (auto simp: attributeFile_find split: option.splits)

lemma collectChanges_loop_mono:
  "collectChanges_loop w files pkgs repoDir fromRef toRef cp cm = Inr (cp', cm') \<Longrightarrow> cp \<subseteq> cp'"
proof (induction files arbitrary: cp cm)
  case Nil
  then show ?case by simp
next
  case (Cons path rest)
  have "cp \<subseteq> attributeFile w pkgs repoDir path cp"
    by (rule attributeFile_mono)
  moreover have "attributeFile w pkgs repoDir path cp \<subseteq> cp'"
    using Cons.prems Cons.IH
    by (auto split: if_splits sum.splits)
  ultimately show ?case by blast
qed

lemma collectChanges_loop_owner:
  assumes "collectChanges_loop w files pkgs repoDir fromRef toRef cp cm = Inr (cp', cm')"
    and "f \<in> set files"
    and "find (\<lambda>pkg. fileInPkg w pkg repoDir f) pkgs = Some owner"
  shows "PkgPath owner \<in> cp'"
  using assms
proof (induction files arbitrary: cp cm)
  case Nil
  then show ?case by simp
next
  case (Cons path rest)
  show ?case
  proof (cases "f = path")
    case True
    have "PkgPath owner \<in> attributeFile w pkgs repoDir path cp"
      using Cons.prems(3) True by (simp add: attributeFile_find)
    moreover have "attributeFile w pkgs repoDir path cp \<subseteq> cp'"
      using Cons.prems(1) collectChanges_loop_mono
      by (fastforce split: if_splits sum.splits)
    ultimately show ?thesis by blast
  next
    case False
    then have "f \<in> set rest" using Cons.prems(2) by simp
    then show ?thesis
      using Cons.prems(1,3) Cons.IH
      by (auto split: if_splits sum.splits)
  qed
qed

lemma isChangedFromImports_iff:
  "isChangedFromImports pkgPath imps cm cp \<longleftrightarrow>
     (\<exists>(importPath, importPkg) \<in> set imps.
        importPath \<in> cp \<or> (\<exists>m. Module importPkg = Some m \<and> Path m \<in> cm))"
  by (induction pkgPath imps cm cp rule: isChangedFromImports.induct)
     (auto split: option.splits)

lemma propagate_mono: "cp \<subseteq> propagate pkgs cm cp"
proof (induction pkgs arbitrary: cp)
  case Nil
  then show ?case by simp
next
  case (Cons a pkgs)
  have "insert (PkgPath a) cp \<subseteq> propagate pkgs cm (insert (PkgPath a) cp)"
    by (rule Cons.IH)
  then have "cp \<subseteq> propagate pkgs cm (insert (PkgPath a) cp)" by blast
  with Cons.IH [of cp] show ?case by simp
qed

lemma propagate_adds_listed:
  "x \<in> propagate pkgs cm cp \<Longrightarrow> x \<in> cp \<or> x \<in> PkgPath ` set pkgs"
  by (induction pkgs arbitrary: cp) (auto split: if_splits)

lemma propagate_import:
  assumes "topological pkgs" and "p \<in> set pkgs" and "k \<in> fst ` set (Imports p)"
    and "k \<in> propagate pkgs cm cp"
  shows "PkgPath p \<in> propagate pkgs cm cp"
  using assms
proof (induction pkgs arbitrary: cp)
  case Nil
  then show ?case by simp
next
  case (Cons a pkgs)
  define cp1 where "cp1 =
    (if PkgPath a \<in> cp then cp
     else if isChangedFromImports (PkgPath a) (Imports a) cm cp then insert (PkgPath a) cp
     else cp)"
  have unfold: "propagate (a # pkgs) cm cp = propagate pkgs cm cp1"
    by (simp add: cp1_def)
  have topo: "topological pkgs" using Cons.prems(1) by simp
  show ?case
  proof (cases "p = a")
    case True
    have "\<forall>q\<in>set (a # pkgs). PkgPath q \<notin> fst ` set (Imports a)"
      using Cons.prems(1) by simp
    then have "\<forall>q\<in>set (a # pkgs). PkgPath q \<noteq> k"
      using Cons.prems(3) True by blast
    then have notlater: "k \<notin> PkgPath ` set pkgs" and notself: "k \<noteq> PkgPath a"
      by auto
    have "k \<in> cp1 \<or> k \<in> PkgPath ` set pkgs"
      using Cons.prems(4) propagate_adds_listed unfolding unfold by blast
    then have "k \<in> cp1" using notlater by blast
    then have "k \<in> cp" using notself by (auto simp: cp1_def split: if_splits)
    then have "isChangedFromImports (PkgPath a) (Imports a) cm cp"
      using Cons.prems(3) True unfolding isChangedFromImports_iff by fastforce
    then have "PkgPath a \<in> cp1" by (simp add: cp1_def)
    then show ?thesis
      using propagate_mono [of cp1 pkgs cm] True unfolding unfold by blast
  next
    case False
    then have "p \<in> set pkgs" using Cons.prems(2) by simp
    from Cons.IH [OF topo this Cons.prems(3)] Cons.prems(4)
    show ?thesis unfolding unfold by blast
  qed
qed

lemma propagate_chain:
  "topological pkgs \<Longrightarrow> importChain pkgs chain \<Longrightarrow> chain \<noteq> [] \<Longrightarrow>
   PkgPath (last chain) \<in> propagate pkgs cm cp \<Longrightarrow>
   \<forall>p \<in> set chain. PkgPath p \<in> propagate pkgs cm cp"
proof (induction pkgs chain rule: importChain.induct)
  case (1 pkgs)
  then show ?case by simp
next
  case (2 pkgs p)
  then show ?case by simp
next
  case (3 pkgs p q chain)
  from "3.prems"(2) have ch: "importChain pkgs (q # chain)"
    and pin: "p \<in> set pkgs" and imp: "PkgPath q \<in> fst ` set (Imports p)"
    by simp_all
  from "3.prems"(4) have lastq: "PkgPath (last (q # chain)) \<in> propagate pkgs cm cp"
    by simp
  have rest: "\<forall>p \<in> set (q # chain). PkgPath p \<in> propagate pkgs cm cp"
    by (rule "3.IH" [OF "3.prems"(1) ch _ lastq]) simp
  then have "PkgPath q \<in> propagate pkgs cm cp" by simp
  from propagate_import [OF "3.prems"(1) pin imp this] rest
  show ?case by simp
qed

text \<open>
  Claim C1. On a package list in topological order, one forward pass propagates
  impact along a dependency chain of any length: when a changed file is owned by the
  last package of a chain (each package of the chain importing the next), every
  package of the chain is in the set that \<open>getChangedPackages\<close> returns. With the
  chain \<open>[A, B, C]\<close> and a change to a file of \<open>C\<close> only, \<open>A\<close>, \<open>B\<close> and \<open>C\<close> are all
  in the result.
\<close>

theorem transitive_propagation:
  assumes load: "loadLocalPackages w modDir = Inr pkgs"
    and topo: "topological pkgs"
    and abs: "filepath_Abs w repoDir = Inr absRepoDir"
    and files: "getChangedFiles w absRepoDir fromRef toRef = Inr changedFiles"
    and run: "getChangedPackages w repoDir modDir fromRef toRef = Inr impact"
    and changed: "f \<in> set changedFiles"
    and owner: "find (\<lambda>pkg. fileInPkg w pkg absRepoDir f) pkgs = Some (last chain)"
    and chain: "chain \<noteq> []" "importChain pkgs chain"
  shows "\<forall>p \<in> set chain. PkgPath p \<in> impact"
proof -
  from run obtain cp cm where
    cc: "collectChanges w changedFiles pkgs absRepoDir fromRef toRef = Inr (cp, cm)"
    and impact: "impact = propagate pkgs cm cp"
    unfolding getChangedPackages_def
    by (simp add: load abs files split: sum.splits prod.splits)
  have "PkgPath (last chain) \<in> cp"
    using collectChanges_loop_owner [OF cc [unfolded collectChanges_def] changed owner] .
  then have "PkgPath (last chain) \<in> propagate pkgs cm cp"
    using propagate_mono by blast
  from propagate_chain [OF topo chain(2) chain(1) this] impact
  show ?thesis by simp
qed

theorem transitive_propagation_witness:
  "topological ex_pkgs
   \<and> importChain ex_pkgs [ex_a, ex_b, ex_c]
   \<and> getChangedFiles (ex_world (''c/c.go'' @ NUL)) ''/r'' ''v1'' ''v2'' = Inr [''c/c.go'']
   \<and> find (\<lambda>pkg. fileInPkg (ex_world (''c/c.go'' @ NUL)) pkg ''/r'' ''c/c.go'') ex_pkgs = Some ex_c
   \<and> getChangedPackages (ex_world (''c/c.go'' @ NUL)) ''.'' ''.'' ''v1'' ''v2''
       = Inr {''r/a'', ''r/b'', ''r/c''}
   \<and> PkgPath ex_a \<in> {''r/a'', ''r/b'', ''r/c''}
   \<and> PkgPath ex_b \<in> {''r/a'', ''r/b'', ''r/c''}
   \<and> PkgPath ex_c \<in> {''r/a'', ''r/b'', ''r/c''}"
proof -
  let ?w = "ex_world (''c/c.go'' @ NUL)"
  have load: "loadLocalPackages ?w ''.'' = Inr ex_pkgs" by code_simp
  have topo: "topological ex_pkgs" by code_simp
  have abs: "filepath_Abs ?w ''.'' = Inr ''/r''" by code_simp
  have files: "getChangedFiles ?w ''/r'' ''v1'' ''v2'' = Inr [''c/c.go'']" by code_simp
  have run: "getChangedPackages ?w ''.'' ''.'' ''v1'' ''v2'' = Inr {''r/a'', ''r/b'', ''r/c''}"
    by code_simp
  have changed: "''c/c.go'' \<in> set [''c/c.go'']" by simp
  have owner: "find (\<lambda>pkg. fileInPkg ?w pkg ''/r'' ''c/c.go'') ex_pkgs = Some (last [ex_a, ex_b, ex_c])"
    by code_simp
  have chain: "[ex_a, ex_b, ex_c] \<noteq> []" "importChain ex_pkgs [ex_a, ex_b, ex_c]"
    by code_simp+
  from transitive_propagation [OF load topo abs files run changed owner chain]
  show ?thesis using topo chain(2) files owner run by simp
qed

subsection \<open>Files without an owner\<close>

lemma isChangedFromImports_empty [simp]: "\<not> isChangedFromImports pkgPath imps {} {}"
  by (simp add: isChangedFromImports_iff split: prod.splits)

lemma propagate_empty: "propagate pkgs {} {} = {}"
  by (induction pkgs) simp_all

lemma Base_manifest: "Base (dir @ ''/go.mod'') = ''go.mod''" "Base ''go.mod'' = ''go.mod''"
  by (simp_all add: Base_def)

lemma Base_empty: "Base [] = ''.''"
  by (simp add: Base_def)

text \<open>
  Claim C5. A changed path that no package lists among its build, auxiliary or
  embedded files (after \<^verbatim>\<open>filepath.Join\<close> with the repository root) has no owner:
  attribution leaves the set of changed packages as it is, and a run whose only
  changed file is such a path (not a manifest) returns the empty set and no error.
  Attribution visits the packages in their stored order and records the first one
  that lists the file.
\<close>

theorem unowned_file_ignored:
  "((\<forall>pkg \<in> set pkgs.
        filepath_Join w repoDir path
          \<notin> set (GoFiles pkg) \<union> set (OtherFiles pkg) \<union> set (EmbedFiles pkg)) \<longrightarrow>
      find (\<lambda>pkg. fileInPkg w pkg repoDir path) pkgs = None
      \<and> attributeFile w pkgs repoDir path changedPackages = changedPackages
      \<and> (Base path \<noteq> ''go.mod'' \<longrightarrow>
            collectChanges w [path] pkgs repoDir fromRef toRef = Inr ({}, {})
            \<and> (loadLocalPackages w modDir = Inr pkgs \<longrightarrow>
                 filepath_Abs w dir = Inr repoDir \<longrightarrow>
                 getChangedFiles w repoDir fromRef toRef = Inr [path] \<longrightarrow>
                 getChangedPackages w dir modDir fromRef toRef = Inr {})))
   \<and> ((\<forall>pkg \<in> set before. \<not> fileInPkg w pkg repoDir path) \<and> fileInPkg w owner repoDir path \<longrightarrow>
        attributeFile w (before @ owner # after) repoDir path changedPackages
          = insert (PkgPath owner) changedPackages)"
proof (intro conjI impI)
  assume unowned: "\<forall>pkg \<in> set pkgs.
        filepath_Join w repoDir path
          \<notin> set (GoFiles pkg) \<union> set (OtherFiles pkg) \<union> set (EmbedFiles pkg)"
  then have no: "\<forall>pkg \<in> set pkgs. \<not> fileInPkg w pkg repoDir path"
    by (simp add: fileInPkg_def)
  then show none: "find (\<lambda>pkg. fileInPkg w pkg repoDir path) pkgs = None"
    by (simp add: find_None_iff)
  then show same: "attributeFile w pkgs repoDir path changedPackages = changedPackages"
    by (simp add: attributeFile_find)
  {
    assume notManifest: "Base path \<noteq> ''go.mod''"
    from none notManifest
    show cc: "collectChanges w [path] pkgs repoDir fromRef toRef = Inr ({}, {})"
      by (simp add: collectChanges_def attributeFile_find)
    assume "loadLocalPackages w modDir = Inr pkgs" "filepath_Abs w dir = Inr repoDir"
      "getChangedFiles w repoDir fromRef toRef = Inr [path]"
    with cc show "getChangedPackages w dir modDir fromRef toRef = Inr {}"
      by (simp add: getChangedPackages_def propagate_empty)
  }
next
  assume "(\<forall>pkg \<in> set before. \<not> fileInPkg w pkg repoDir path) \<and> fileInPkg w owner repoDir path"
  then show "attributeFile w (before @ owner # after) repoDir path changedPackages
          = insert (PkgPath owner) changedPackages"
    by (induction before) simp_all
qed

theorem unowned_file_ignored_witness:
  "find (\<lambda>pkg. fileInPkg (ex_world (''README.md'' @ NUL)) pkg ''/r'' ''README.md'') ex_pkgs = None
   \<and> Base ''README.md'' \<noteq> ''go.mod''
   \<and> getChangedFiles (ex_world (''README.md'' @ NUL)) ''/r'' ''v1'' ''v2'' = Inr [''README.md'']
   \<and> getChangedPackages (ex_world (''README.md'' @ NUL)) ''.'' ''.'' ''v1'' ''v2'' = Inr {}
   \<and> fileInPkg (ex_world []) ex_b ''/r'' ''b/data.txt''
   \<and> attributeFile (ex_world []) ([ex_c] @ ex_b # [ex_a]) ''/r'' ''b/data.txt'' {''r/c''}
        = {''r/b'', ''r/c''}"
proof -
  let ?w = "ex_world (''README.md'' @ NUL)"
  have unowned: "\<forall>pkg \<in> set ex_pkgs.
        filepath_Join ?w ''/r'' ''README.md''
          \<notin> set (GoFiles pkg) \<union> set (OtherFiles pkg) \<union> set (EmbedFiles pkg)"
    by code_simp
  have notManifest: "Base ''README.md'' \<noteq> ''go.mod''" by code_simp
  have load: "loadLocalPackages ?w ''.'' = Inr ex_pkgs" by code_simp
  have abs: "filepath_Abs ?w ''.'' = Inr ''/r''" by code_simp
  have files: "getChangedFiles ?w ''/r'' ''v1'' ''v2'' = Inr [''README.md'']" by code_simp
  have first: "(\<forall>pkg \<in> set [ex_c]. \<not> fileInPkg (ex_world []) pkg ''/r'' ''b/data.txt'')
      \<and> fileInPkg (ex_world []) ex_b ''/r'' ''b/data.txt''"
    by code_simp
  have run: "getChangedPackages ?w ''.'' ''.'' ''v1'' ''v2'' = Inr {}"
    using unowned_file_ignored [where w = ?w and pkgs = ex_pkgs and repoDir = "''/r''"
        and path = "''README.md''" and modDir = "''.''" and dir = "''.''"
        and fromRef = "''v1''" and toRef = "''v2''"]
      unowned notManifest load abs files
    by blast
  have attr: "attributeFile (ex_world []) ([ex_c] @ ex_b # [ex_a]) ''/r'' ''b/data.txt'' {''r/c''}
        = insert (PkgPath ex_b) {''r/c''}"
    using unowned_file_ignored [where w = "ex_world []" and before = "[ex_c]" and owner = ex_b
        and repoDir = "''/r''" and path = "''b/data.txt''"] first
    by blast
  have none: "find (\<lambda>pkg. fileInPkg ?w pkg ''/r'' ''README.md'') ex_pkgs = None"
    using unowned_file_ignored [where w = ?w and pkgs = ex_pkgs and repoDir = "''/r''"
        and path = "''README.md''"] unowned
    by blast
  have "insert (PkgPath ex_b) {''r/c''} = {''r/b'', ''r/c''}" by code_simp
  with attr none notManifest files run first show ?thesis by simp
qed

subsection \<open>The empty diff and manifest detection\<close>

text \<open>
  Claim C8. When \<^verbatim>\<open>git diff\<close> succeeds and prints nothing, \<open>getChangedFiles\<close> returns
  the list whose one element is the empty path, not the empty list. The base name of
  the empty path is \<^verbatim>\<open>"."\<close>, so no manifest is processed for it; and, the path that
  \<^verbatim>\<open>filepath.Join\<close> makes of the repository root and the empty path (the root
  directory itself) being no file of any package, it has no owner: \<open>collectChanges\<close>
  returns two empty sets and the run returns the empty set.
\<close>

theorem empty_diff:
  assumes "cmd_Run w [''git'', ''-C'', absRepoDir, ''diff'', ''--name-only'', ''-z'', fromRef, toRef]
             = (None, [], errOut)"
  shows "getChangedFiles w absRepoDir fromRef toRef = Inr [[]]
     \<and> Base [] = ''.'' \<and> Base [] \<noteq> ''go.mod''
     \<and> ((\<forall>pkg \<in> set pkgs.
            filepath_Join w absRepoDir []
              \<notin> set (GoFiles pkg) \<union> set (OtherFiles pkg) \<union> set (EmbedFiles pkg)) \<longrightarrow>
          find (\<lambda>pkg. fileInPkg w pkg absRepoDir []) pkgs = None
          \<and> collectChanges w [[]] pkgs absRepoDir fromRef toRef = Inr ({}, {})
          \<and> (loadLocalPackages w modDir = Inr pkgs \<longrightarrow> filepath_Abs w repoDir = Inr absRepoDir \<longrightarrow>
                getChangedPackages w repoDir modDir fromRef toRef = Inr {}))"
proof (intro conjI impI)
  show files: "getChangedFiles w absRepoDir fromRef toRef = Inr [[]]"
    using assms
    by (simp add: getChangedFiles_def runGitCmd_def runCmd_def TrimSuffix_def Split_def NUL_def)
  show "Base [] = ''.''" by (rule Base_empty)
  show notManifest: "Base [] \<noteq> ''go.mod''" by (simp add: Base_empty)
  assume "\<forall>pkg \<in> set pkgs.
            filepath_Join w absRepoDir []
              \<notin> set (GoFiles pkg) \<union> set (OtherFiles pkg) \<union> set (EmbedFiles pkg)"
  then have "\<forall>pkg \<in> set pkgs. \<not> fileInPkg w pkg absRepoDir []"
    by (simp add: fileInPkg_def)
  then show none: "find (\<lambda>pkg. fileInPkg w pkg absRepoDir []) pkgs = None"
    by (simp add: find_None_iff)
  with notManifest show cc: "collectChanges w [[]] pkgs absRepoDir fromRef toRef = Inr ({}, {})"
    by (simp add: collectChanges_def attributeFile_find)
  assume "loadLocalPackages w modDir = Inr pkgs" "filepath_Abs w repoDir = Inr absRepoDir"
  with files cc show "getChangedPackages w repoDir modDir fromRef toRef = Inr {}"
    by (simp add: getChangedPackages_def propagate_empty)
qed

theorem empty_diff_witness:
  "cmd_Run (ex_world []) [''git'', ''-C'', ''/r'', ''diff'', ''--name-only'', ''-z'', ''v1'', ''v2'']
     = (None, [], [])
   \<and> getChangedFiles (ex_world []) ''/r'' ''v1'' ''v2'' = Inr [[]]
   \<and> filepath_Join (ex_world []) ''/r'' [] = ''/r''
   \<and> find (\<lambda>pkg. fileInPkg (ex_world []) pkg ''/r'' []) ex_pkgs = None
   \<and> collectChanges (ex_world []) [[]] ex_pkgs ''/r'' ''v1'' ''v2'' = Inr ({}, {})
   \<and> getChangedPackages (ex_world []) ''.'' ''.'' ''v1'' ''v2'' = Inr {}"
proof -
  have run: "cmd_Run (ex_world []) [''git'', ''-C'', ''/r'', ''diff'', ''--name-only'', ''-z'', ''v1'', ''v2'']
     = (None, [], [])"
    by code_simp
  have unowned: "\<forall>pkg \<in> set ex_pkgs.
         filepath_Join (ex_world []) ''/r'' []
           \<notin> set (GoFiles pkg) \<union> set (OtherFiles pkg) \<union> set (EmbedFiles pkg)"
    by code_simp
  have load: "loadLocalPackages (ex_world []) ''.'' = Inr ex_pkgs" by code_simp
  have abs: "filepath_Abs (ex_world []) ''.'' = Inr ''/r''" by code_simp
  have join: "filepath_Join (ex_world []) ''/r'' [] = ''/r''" by code_simp
  from empty_diff [OF run, where pkgs = ex_pkgs and modDir = "''.''" and repoDir = "''.''"]
    run unowned load abs join
  show ?thesis by blast
qed

text \<open>
  Claim C9. A changed path is treated as a manifest by its base name alone:
  \<^verbatim>\<open>go.mod\<close> at the top and \<^verbatim>\<open>dir/go.mod\<close> under any directory have the base name
  \<^verbatim>\<open>go.mod\<close>. For such a path the iteration of \<open>collectChanges\<close> computes the module
  delta from that path (failing at once if that fails) and, in the same iteration,
  attributes the path to a package like any other changed file. A path with another
  base name leaves the module delta as it is.
\<close>

theorem manifest_by_base_name:
  "Base ''go.mod'' = ''go.mod'' \<and> Base (dir @ ''/go.mod'') = ''go.mod''
   \<and> (path = ''go.mod'' \<or> (\<exists>dir. path = dir @ ''/go.mod'') \<longrightarrow>
        collectChanges_loop w (path # rest) pkgs repoDir fromRef toRef changedPackages changedMods
          = (case getChangedMods w path repoDir fromRef toRef of
               Inl e \<Rightarrow> Inl e
             | Inr delta \<Rightarrow>
                 collectChanges_loop w rest pkgs repoDir fromRef toRef
                   (attributeFile w pkgs repoDir path changedPackages) delta)
        \<and> (\<forall>delta owner.
              getChangedMods w path repoDir fromRef toRef = Inr delta \<longrightarrow>
              find (\<lambda>pkg. fileInPkg w pkg repoDir path) pkgs = Some owner \<longrightarrow>
              collectChanges w [path] pkgs repoDir fromRef toRef = Inr ({PkgPath owner}, delta))
        \<and> (\<forall>e. getChangedMods w path repoDir fromRef toRef = Inl e \<longrightarrow>
              collectChanges w [path] pkgs repoDir fromRef toRef = Inl e))
   \<and> (Base path \<noteq> ''go.mod'' \<longrightarrow>
        collectChanges_loop w (path # rest) pkgs repoDir fromRef toRef changedPackages changedMods
          = collectChanges_loop w rest pkgs repoDir fromRef toRef
              (attributeFile w pkgs repoDir path changedPackages) changedMods)"
proof (intro conjI impI)
  show "Base ''go.mod'' = ''go.mod''" "Base (dir @ ''/go.mod'') = ''go.mod''"
    by (rule Base_manifest)+
next
  assume "path = ''go.mod'' \<or> (\<exists>dir. path = dir @ ''/go.mod'')"
  then have m: "Base path = ''go.mod''"
    using Base_manifest by blast
  then show "collectChanges_loop w (path # rest) pkgs repoDir fromRef toRef changedPackages changedMods
          = (case getChangedMods w path repoDir fromRef toRef of
               Inl e \<Rightarrow> Inl e
             | Inr delta \<Rightarrow>
                 collectChanges_loop w rest pkgs repoDir fromRef toRef
                   (attributeFile w pkgs repoDir path changedPackages) delta)"
    by simp
  from m show "\<forall>delta owner.
              getChangedMods w path repoDir fromRef toRef = Inr delta \<longrightarrow>
              find (\<lambda>pkg. fileInPkg w pkg repoDir path) pkgs = Some owner \<longrightarrow>
              collectChanges w [path] pkgs repoDir fromRef toRef = Inr ({PkgPath owner}, delta)"
    by (simp add: collectChanges_def attributeFile_find)
  from m show "\<forall>e. getChangedMods w path repoDir fromRef toRef = Inl e \<longrightarrow>
              collectChanges w [path] pkgs repoDir fromRef toRef = Inl e"
    by (simp add: collectChanges_def)
next
  assume "Base path \<noteq> ''go.mod''"
  then show "collectChanges_loop w (path # rest) pkgs repoDir fromRef toRef changedPackages changedMods
          = collectChanges_loop w rest pkgs repoDir fromRef toRef
              (attributeFile w pkgs repoDir path changedPackages) changedMods"
    by simp
qed

theorem manifest_by_base_name_witness:
  "(\<exists>dir. ''a/b/go.mod'' = dir @ ''/go.mod'')
   \<and> getChangedMods (ex_world []) ''go.mod'' ''/r'' ''v1'' ''v2'' = Inr {''x''}
   \<and> find (\<lambda>pkg. fileInPkg (ex_world []) pkg ''/r'' ''go.mod'')
         [ex_c, Package ''r/m'' [] [''/r/go.mod''] [] [] None []]
       = Some (Package ''r/m'' [] [''/r/go.mod''] [] [] None [])
   \<and> collectChanges (ex_world []) [''go.mod'']
         [ex_c, Package ''r/m'' [] [''/r/go.mod''] [] [] None []] ''/r'' ''v1'' ''v2''
       = Inr ({''r/m''}, {''x''})
   \<and> collectChanges (ex_world []) [''gone/go.mod''] ex_pkgs ''/r'' ''v1'' ''v2''
       = Inl (Wrap ''reading gone/go.mod at v2: ''
               (Wrap ''running command: `git -C /r show v2:gone/go.mod`: ''
                  (Err ''exit status 128'') (newline @ ''stderr: fatal: path does not exist'')) [])
   \<and> Base ''c/c.go'' \<noteq> ''go.mod''
   \<and> collectChanges_loop (ex_world []) [''c/c.go''] ex_pkgs ''/r'' ''v1'' ''v2'' {} {''x''}
       = Inr ({''r/c''}, {''x''})"
proof -
  let ?w = "ex_world []"
  let ?m = "Package ''r/m'' [] [''/r/go.mod''] [] [] None []"
  have shape: "\<exists>dir. ''a/b/go.mod'' = dir @ ''/go.mod''"
    by (rule exI [of _ "''a/b''"]) simp
  have delta: "getChangedMods ?w ''go.mod'' ''/r'' ''v1'' ''v2'' = Inr {''x''}" by code_simp
  have owner: "find (\<lambda>pkg. fileInPkg ?w pkg ''/r'' ''go.mod'') [ex_c, ?m] = Some ?m"
    by code_simp
  have gone: "getChangedMods ?w ''gone/go.mod'' ''/r'' ''v1'' ''v2''
       = Inl (Wrap ''reading gone/go.mod at v2: ''
               (Wrap ''running command: `git -C /r show v2:gone/go.mod`: ''
                  (Err ''exit status 128'') (newline @ ''stderr: fatal: path does not exist'')) [])"
    by code_simp
  have goneshape: "''gone/go.mod'' = ''gone'' @ ''/go.mod''" by simp
  have other: "Base ''c/c.go'' \<noteq> ''go.mod''" by code_simp
  have step: "collectChanges_loop ?w [] ex_pkgs ''/r'' ''v1'' ''v2''
                (attributeFile ?w ex_pkgs ''/r'' ''c/c.go'' {}) {''x''} = Inr ({''r/c''}, {''x''})"
    by code_simp
  have a: "collectChanges ?w [''go.mod''] [ex_c, ?m] ''/r'' ''v1'' ''v2'' = Inr ({PkgPath ?m}, {''x''})"
    using manifest_by_base_name [where path = "''go.mod''" and w = ?w and pkgs = "[ex_c, ?m]"
        and repoDir = "''/r''" and fromRef = "''v1''" and toRef = "''v2''"] delta owner
    by blast
  have b: "collectChanges ?w [''gone/go.mod''] ex_pkgs ''/r'' ''v1'' ''v2''
       = Inl (Wrap ''reading gone/go.mod at v2: ''
               (Wrap ''running command: `git -C /r show v2:gone/go.mod`: ''
                  (Err ''exit status 128'') (newline @ ''stderr: fatal: path does not exist'')) [])"
    using manifest_by_base_name [where path = "''gone/go.mod''" and w = ?w and pkgs = ex_pkgs
        and repoDir = "''/r''" and fromRef = "''v1''" and toRef = "''v2''"] gone goneshape
    by blast
  have c: "collectChanges_loop ?w [''c/c.go''] ex_pkgs ''/r'' ''v1'' ''v2'' {} {''x''}
       = Inr ({''r/c''}, {''x''})"
    using manifest_by_base_name [where path = "''c/c.go''" and w = ?w and pkgs = ex_pkgs
        and repoDir = "''/r''" and fromRef = "''v1''" and toRef = "''v2''" and rest = "[]"
        and changedPackages = "{}" and changedMods = "{''x''}"] other step
    by simp
  from shape delta owner a b other c show ?thesis by simp
qed

subsection \<open>Several changed manifests\<close>

text \<open>
  Claim C3 says that with several manifests among the changed files the module delta
  the engine consumes combines the results of all occurrences, so that a module
  flagged by an earlier occurrence stays in it. The code does not do that. On the
  changed files \<open>[go.mod, sub/go.mod]\<close> the delta of \<open>go.mod\<close> is \<open>{x}\<close> and that of
  \<open>sub/go.mod\<close> is empty, and \<open>collectChanges\<close> hands on the empty delta: its loop
  assigns each result of \<open>getChangedMods\<close> to \<^verbatim>\<open>changedMods\<close>, where it inserts into
  \<^verbatim>\<open>changedPackages\<close>. The run reports no package, although \<open>r/a\<close> imports a package of
  module \<open>x\<close>, whose version changed; with \<open>go.mod\<close> alone changed it reports \<open>r/a\<close>.
\<close>

theorem earlier_manifest_delta_dropped:
  "getChangedFiles (ex_world (''go.mod'' @ NUL @ ''sub/go.mod'' @ NUL)) ''/r'' ''v1'' ''v2''
     = Inr [''go.mod'', ''sub/go.mod'']
   \<and> getChangedMods (ex_world []) ''go.mod'' ''/r'' ''v1'' ''v2'' = Inr {''x''}
   \<and> getChangedMods (ex_world []) ''sub/go.mod'' ''/r'' ''v1'' ''v2'' = Inr {}
   \<and> collectChanges (ex_world []) [''go.mod'', ''sub/go.mod''] ex_pkgs ''/r'' ''v1'' ''v2''
       = Inr ({}, {})
   \<and> getChangedPackages (ex_world (''go.mod'' @ NUL)) ''.'' ''.'' ''v1'' ''v2'' = Inr {''r/a''}
   \<and> getChangedPackages (ex_world (''go.mod'' @ NUL @ ''sub/go.mod'' @ NUL)) ''.'' ''.'' ''v1'' ''v2''
       = Inr {}"
  by code_simp


subsection \<open>Failing to read or parse a manifest\<close>

lemma readModFileAtRef_Inl:
  "readModFileAtRef w repoDir modPath ref = Inl e \<longleftrightarrow>
     (\<exists>cause. runGitCmd w [''-C'', repoDir, ''show'', ref @ '':'' @ modPath] = Inl cause
        \<and> e = Wrap (''reading '' @ modPath @ '' at '' @ ref @ '': '') cause [])
     \<or> (\<exists>data cause. runGitCmd w [''-C'', repoDir, ''show'', ref @ '':'' @ modPath] = Inr data
        \<and> modfile_Parse w modPath data = Inl cause
        \<and> e = Wrap (''parsing mod file '' @ modPath @ '' at '' @ ref @ '': '') cause [])"
  by (auto simp: readModFileAtRef_def split: sum.splits)

lemma readModFiles_Inl:
  "readModFiles w repoDir modPath fromRef toRef = Inl e \<longleftrightarrow>
     readModFileAtRef w repoDir modPath fromRef = Inl e
     \<or> (\<exists>old. readModFileAtRef w repoDir modPath fromRef = Inr old)
        \<and> readModFileAtRef w repoDir modPath toRef = Inl e"
  by (auto simp: readModFiles_def split: sum.splits)

lemma getChangedMods_Inl:
  "getChangedMods w modPath repoDir fromRef toRef = Inl e \<longleftrightarrow>
     readModFiles w repoDir modPath fromRef toRef = Inl e"
  by (auto simp: getChangedMods_def split: sum.splits)

lemma collectChanges_loop_fails:
  assumes "p \<in> set files" and "Base p = ''go.mod''"
    and "getChangedMods w p repoDir fromRef toRef = Inl e0"
  shows "\<exists>q \<in> set files. \<exists>e. Base q = ''go.mod''
           \<and> getChangedMods w q repoDir fromRef toRef = Inl e
           \<and> collectChanges_loop w files pkgs repoDir fromRef toRef cp cm = Inl e"
  using assms(1)
proof (induction files arbitrary: cp cm)
  case Nil
  then show ?case by simp
next
  case (Cons path rest)
  show ?case
  proof (cases "Base path = ''go.mod''")
    case True
    show ?thesis
    proof (cases "getChangedMods w path repoDir fromRef toRef")
      case (Inl e)
      with True have "collectChanges_loop w (path # rest) pkgs repoDir fromRef toRef cp cm = Inl e"
        by simp
      with True Inl show ?thesis by auto
    next
      case (Inr delta)
      with assms(3) have "p \<noteq> path" by auto
      with Cons.prems have "p \<in> set rest" by simp
      from Cons.IH [OF this, of "attributeFile w pkgs repoDir path cp" delta]
      show ?thesis using True Inr by auto
    qed
  next
    case False
    with assms(2) have "p \<noteq> path" by auto
    with Cons.prems have "p \<in> set rest" by simp
    from Cons.IH [OF this, of "attributeFile w pkgs repoDir path cp" cm]
    show ?thesis using False by auto
  qed
qed

text \<open>
  Claim C4. When a changed manifest cannot be read at one of the two revisions
  (\<^verbatim>\<open>git show\<close> fails) or what was read does not parse, the whole computation fails:
  \<open>getChangedPackages\<close> returns an error and no set, and \<open>printChangedPackages\<close> prints
  nothing. The error is the failure of reading or parsing some changed manifest at one
  of the two revisions, wrapped with the path and the revision; the cause is kept
  inside it.
\<close>

theorem manifest_failure_aborts:
  assumes load: "loadLocalPackages w modDir = Inr pkgs"
    and abs: "filepath_Abs w repoDir = Inr absRepoDir"
    and files: "getChangedFiles w absRepoDir fromRef toRef = Inr changedFiles"
    and manifest: "p \<in> set changedFiles" "Base p = ''go.mod''"
    and ref: "ref = fromRef \<or> ref = toRef"
    and fail: "(\<exists>cause. runGitCmd w [''-C'', absRepoDir, ''show'', ref @ '':'' @ p] = Inl cause)
             \<or> (\<exists>data cause. runGitCmd w [''-C'', absRepoDir, ''show'', ref @ '':'' @ p] = Inr data
                   \<and> modfile_Parse w p data = Inl cause)"
  shows "\<exists>e q r cause.
           getChangedPackages w repoDir modDir fromRef toRef = Inl e
         \<and> printChangedPackages w repoDir modDir fromRef toRef
             = ({}, Some (Wrap ''getting changed packages: '' e []))
         \<and> q \<in> set changedFiles \<and> Base q = ''go.mod'' \<and> (r = fromRef \<or> r = toRef)
         \<and> Unwrap e = Some cause
         \<and> (e = Wrap (''reading '' @ q @ '' at '' @ r @ '': '') cause []
              \<and> runGitCmd w [''-C'', absRepoDir, ''show'', r @ '':'' @ q] = Inl cause
            \<or> e = Wrap (''parsing mod file '' @ q @ '' at '' @ r @ '': '') cause []
              \<and> (\<exists>data. runGitCmd w [''-C'', absRepoDir, ''show'', r @ '':'' @ q] = Inr data
                    \<and> modfile_Parse w q data = Inl cause))"
proof -
  from fail obtain e1 where e1: "readModFileAtRef w absRepoDir p ref = Inl e1"
    unfolding readModFileAtRef_Inl by blast
  have "\<exists>e0. readModFiles w absRepoDir p fromRef toRef = Inl e0"
  proof (cases "readModFileAtRef w absRepoDir p fromRef")
    case (Inl e')
    then show ?thesis unfolding readModFiles_Inl by blast
  next
    case (Inr old)
    with ref e1 have "readModFileAtRef w absRepoDir p toRef = Inl e1" by auto
    with Inr show ?thesis unfolding readModFiles_Inl by blast
  qed
  then obtain e0 where "getChangedMods w p absRepoDir fromRef toRef = Inl e0"
    unfolding getChangedMods_Inl by blast
  from collectChanges_loop_fails [OF manifest this, of pkgs "{}" "{}"]
  obtain q e where q: "q \<in> set changedFiles" "Base q = ''go.mod''"
    and qe: "getChangedMods w q absRepoDir fromRef toRef = Inl e"
    and cc: "collectChanges w changedFiles pkgs absRepoDir fromRef toRef = Inl e"
    unfolding collectChanges_def by blast
  have run: "getChangedPackages w repoDir modDir fromRef toRef = Inl e"
    by (simp add: getChangedPackages_def load abs files cc)
  then have print: "printChangedPackages w repoDir modDir fromRef toRef
             = ({}, Some (Wrap ''getting changed packages: '' e []))"
    by (simp add: printChangedPackages_def)
  from qe obtain r where r: "r = fromRef \<or> r = toRef"
    and re: "readModFileAtRef w absRepoDir q r = Inl e"
    unfolding getChangedMods_Inl readModFiles_Inl by blast
  from re obtain cause where
    shape: "e = Wrap (''reading '' @ q @ '' at '' @ r @ '': '') cause []
              \<and> runGitCmd w [''-C'', absRepoDir, ''show'', r @ '':'' @ q] = Inl cause
            \<or> e = Wrap (''parsing mod file '' @ q @ '' at '' @ r @ '': '') cause []
              \<and> (\<exists>data. runGitCmd w [''-C'', absRepoDir, ''show'', r @ '':'' @ q] = Inr data
                    \<and> modfile_Parse w q data = Inl cause)"
    unfolding readModFileAtRef_Inl by blast
  then have "Unwrap e = Some cause" by auto
  with run print q r shape show ?thesis by blast
qed

theorem manifest_failure_aborts_witness:
  "getChangedFiles (ex_world (''b/b.go'' @ NUL @ ''gone/go.mod'' @ NUL)) ''/r'' ''v1'' ''v2''
     = Inr [''b/b.go'', ''gone/go.mod'']
   \<and> Base ''gone/go.mod'' = ''go.mod''
   \<and> runGitCmd (ex_world (''b/b.go'' @ NUL @ ''gone/go.mod'' @ NUL))
        [''-C'', ''/r'', ''show'', ''v2'' @ '':'' @ ''gone/go.mod'']
       = Inl (Wrap ''running command: `git -C /r show v2:gone/go.mod`: ''
                (Err ''exit status 128'') (newline @ ''stderr: fatal: path does not exist''))
   \<and> (\<exists>e. getChangedPackages (ex_world (''b/b.go'' @ NUL @ ''gone/go.mod'' @ NUL))
              ''.'' ''.'' ''v1'' ''v2'' = Inl e
          \<and> printChangedPackages (ex_world (''b/b.go'' @ NUL @ ''gone/go.mod'' @ NUL))
              ''.'' ''.'' ''v1'' ''v2'' = ({}, Some (Wrap ''getting changed packages: '' e [])))"
proof -
  let ?w = "ex_world (''b/b.go'' @ NUL @ ''gone/go.mod'' @ NUL)"
  have load: "loadLocalPackages ?w ''.'' = Inr ex_pkgs" by code_simp
  have abs: "filepath_Abs ?w ''.'' = Inr ''/r''" by code_simp
  have files: "getChangedFiles ?w ''/r'' ''v1'' ''v2'' = Inr [''b/b.go'', ''gone/go.mod'']"
    by code_simp
  have manifest: "''gone/go.mod'' \<in> set [''b/b.go'', ''gone/go.mod'']"
    "Base ''gone/go.mod'' = ''go.mod''"
    by code_simp+
  have ref: "''v2'' = ''v1'' \<or> ''v2'' = ''v2''" by simp
  have gitShow: "runGitCmd ?w [''-C'', ''/r'', ''show'', ''v2'' @ '':'' @ ''gone/go.mod'']
       = Inl (Wrap ''running command: `git -C /r show v2:gone/go.mod`: ''
                (Err ''exit status 128'') (newline @ ''stderr: fatal: path does not exist''))"
    by code_simp
  then have fail: "(\<exists>cause. runGitCmd ?w [''-C'', ''/r'', ''show'', ''v2'' @ '':'' @ ''gone/go.mod''] = Inl cause)
             \<or> (\<exists>data cause. runGitCmd ?w [''-C'', ''/r'', ''show'', ''v2'' @ '':'' @ ''gone/go.mod''] = Inr data
                   \<and> modfile_Parse ?w ''gone/go.mod'' data = Inl cause)"
    by blast
  from manifest_failure_aborts [OF load abs files manifest ref fail]
  have "\<exists>e. getChangedPackages ?w ''.'' ''.'' ''v1'' ''v2'' = Inl e
          \<and> printChangedPackages ?w ''.'' ''.'' ''v1'' ''v2''
              = ({}, Some (Wrap ''getting changed packages: '' e []))"
    by blast
  with files manifest(2) gitShow show ?thesis by blast
qed

subsection \<open>Independence of the map iteration order\<close>

lemma isChangedFromImports_entries:
  "isChangedFromImports pkgPath (Imports pkg) cm cp \<longleftrightarrow>
     (\<exists>(importPath, module) \<in> importEntries pkg.
        importPath \<in> cp \<or> (\<exists>m. module = Some m \<and> Path m \<in> cm))"
  unfolding isChangedFromImports_iff importEntries_def by (auto split: prod.splits)

lemma propagate_sameInput:
  "list_all2 sameInput pkgs pkgs' \<Longrightarrow> propagate pkgs' cm cp = propagate pkgs cm cp"
proof (induction pkgs pkgs' arbitrary: cp rule: list_all2_induct)
  case Nil
  show ?case by simp
next
  case (Cons p ps q qs)
  from Cons.hyps(1) have path: "PkgPath q = PkgPath p"
    and entries: "importEntries q = importEntries p"
    by (simp_all add: sameInput_def)
  have "isChangedFromImports (PkgPath p) (Imports q) cm cp
        = isChangedFromImports (PkgPath p) (Imports p) cm cp"
    unfolding isChangedFromImports_entries entries ..
  with path Cons.IH show ?case by simp
qed

lemma fileInPkg_sameInput:
  "sameInput p q \<Longrightarrow>
   fileInPkg (w\<lparr>packages_Load := load\<rparr>) q repoDir path = fileInPkg w p repoDir path"
  by (simp add: fileInPkg_def sameInput_def)

lemma attributeFile_sameInput:
  "list_all2 sameInput pkgs pkgs' \<Longrightarrow>
   attributeFile (w\<lparr>packages_Load := load\<rparr>) pkgs' repoDir path cp
     = attributeFile w pkgs repoDir path cp"
proof (induction pkgs pkgs' rule: list_all2_induct)
  case Nil
  show ?case by simp
next
  case (Cons p ps q qs)
  from Cons.hyps(1) have "PkgPath q = PkgPath p" by (simp add: sameInput_def)
  with Cons.IH fileInPkg_sameInput [OF Cons.hyps(1)] show ?case by simp
qed

lemma runGitCmd_load: "runGitCmd (w\<lparr>packages_Load := load\<rparr>) args = runGitCmd w args"
  by (simp add: runGitCmd_def runCmd_def)

lemma getChangedFiles_load:
  "getChangedFiles (w\<lparr>packages_Load := load\<rparr>) repoDir fromRef toRef
     = getChangedFiles w repoDir fromRef toRef"
  by (simp add: getChangedFiles_def runGitCmd_load)

lemma readModFileAtRef_load:
  "readModFileAtRef (w\<lparr>packages_Load := load\<rparr>) repoDir modPath ref
     = readModFileAtRef w repoDir modPath ref"
  by (simp add: readModFileAtRef_def runGitCmd_load split: sum.splits)

lemma getChangedMods_load:
  "getChangedMods (w\<lparr>packages_Load := load\<rparr>) modPath repoDir fromRef toRef
     = getChangedMods w modPath repoDir fromRef toRef"
  by (simp add: getChangedMods_def readModFiles_def readModFileAtRef_load
      split: sum.splits prod.splits)

lemma collectChanges_loop_sameInput:
  "list_all2 sameInput pkgs pkgs' \<Longrightarrow>
   collectChanges_loop (w\<lparr>packages_Load := load\<rparr>) files pkgs' repoDir fromRef toRef cp cm
     = collectChanges_loop w files pkgs repoDir fromRef toRef cp cm"
  by (induction files arbitrary: cp cm)
     (simp_all add: getChangedMods_load attributeFile_sameInput split: sum.splits)

lemma find_errors_sameInput:
  "list_all2 sameInput pkgs pkgs' \<Longrightarrow>
   map_option (\<lambda>pkg. (PkgPath pkg, Errors pkg)) (find (\<lambda>pkg. length (Errors pkg) \<noteq> 0) pkgs')
     = map_option (\<lambda>pkg. (PkgPath pkg, Errors pkg)) (find (\<lambda>pkg. length (Errors pkg) \<noteq> 0) pkgs)"
  by (induction pkgs pkgs' rule: list_all2_induct) (simp_all add: sameInput_def)

lemma loadLocalPackages_sameInput:
  assumes "packages_Load w modDir = Inr pkgs" and "list_all2 sameInput pkgs pkgs'"
  shows "(\<exists>e. loadLocalPackages (w\<lparr>packages_Load := (\<lambda>dir. Inr pkgs')\<rparr>) modDir = Inl e
            \<and> loadLocalPackages w modDir = Inl e)
       \<or> (loadLocalPackages (w\<lparr>packages_Load := (\<lambda>dir. Inr pkgs')\<rparr>) modDir = Inr pkgs'
            \<and> loadLocalPackages w modDir = Inr pkgs)"
proof (cases "find (\<lambda>pkg. length (Errors pkg) \<noteq> 0) pkgs")
  case None
  with find_errors_sameInput [OF assms(2)]
  have "find (\<lambda>pkg. length (Errors pkg) \<noteq> 0) pkgs' = None" by simp
  with None assms(1) show ?thesis by (simp add: loadLocalPackages_def)
next
  case (Some p)
  with find_errors_sameInput [OF assms(2)]
  obtain q where "find (\<lambda>pkg. length (Errors pkg) \<noteq> 0) pkgs' = Some q"
    and "PkgPath q = PkgPath p" and "Errors q = Errors p"
    by (cases "find (\<lambda>pkg. length (Errors pkg) \<noteq> 0) pkgs'") auto
  with Some assms(1) show ?thesis by (simp add: loadLocalPackages_def)
qed

text \<open>
  Claim C6. Two runs on identical inputs return the same set of packages. Within one
  run everything is computed from the inputs; what may differ between two runs is the
  order in which Go visits a map. The returned slice is modelled as the set of its
  elements, and for the \<^verbatim>\<open>Imports\<close> maps: when the packages loaded in a second run
  differ from those of the first at most in the order of their import entries, the
  second run returns what the first returns (the same set, or the same error).
\<close>

theorem impact_deterministic:
  assumes "packages_Load w modDir = Inr pkgs" and "list_all2 sameInput pkgs pkgs'"
  shows "getChangedPackages (w\<lparr>packages_Load := (\<lambda>dir. Inr pkgs')\<rparr>) repoDir modDir fromRef toRef
         = getChangedPackages w repoDir modDir fromRef toRef"
proof -
  let ?w' = "w\<lparr>packages_Load := (\<lambda>dir. Inr pkgs')\<rparr>"
  from loadLocalPackages_sameInput [OF assms]
  show ?thesis
  proof (elim disjE exE conjE)
    fix e
    assume "loadLocalPackages ?w' modDir = Inl e" "loadLocalPackages w modDir = Inl e"
    then show ?thesis by (simp add: getChangedPackages_def)
  next
    assume "loadLocalPackages ?w' modDir = Inr pkgs'" "loadLocalPackages w modDir = Inr pkgs"
    then show ?thesis
      by (simp add: getChangedPackages_def getChangedFiles_load collectChanges_def
            collectChanges_loop_sameInput [OF assms(2)] propagate_sameInput [OF assms(2)]
          split: sum.splits prod.splits)
  qed
qed

theorem impact_deterministic_witness:
  "packages_Load (ex_world (''go.mod'' @ NUL)) ''.'' = Inr ex_pkgs
   \<and> list_all2 sameInput ex_pkgs
        [ex_c, ex_b, Package ''r/a'' [''/r/a/a.go''] [''/r/a/a.s''] []
                       [(''x/foo'', ex_foo), (''r/b'', ex_b)] None []]
   \<and> getChangedPackages (ex_world (''go.mod'' @ NUL)) ''.'' ''.'' ''v1'' ''v2'' = Inr {''r/a''}
   \<and> getChangedPackages
        ((ex_world (''go.mod'' @ NUL))
           \<lparr>packages_Load := (\<lambda>dir. Inr
              [ex_c, ex_b, Package ''r/a'' [''/r/a/a.go''] [''/r/a/a.s''] []
                             [(''x/foo'', ex_foo), (''r/b'', ex_b)] None []])\<rparr>)
        ''.'' ''.'' ''v1'' ''v2'' = Inr {''r/a''}"
proof -
  let ?w = "ex_world (''go.mod'' @ NUL)"
  let ?pkgs' = "[ex_c, ex_b, Package ''r/a'' [''/r/a/a.go''] [''/r/a/a.s''] []
                       [(''x/foo'', ex_foo), (''r/b'', ex_b)] None []]"
  have load: "packages_Load ?w ''.'' = Inr ex_pkgs" by code_simp
  have same: "list_all2 sameInput ex_pkgs ?pkgs'" by code_simp
  have run: "getChangedPackages ?w ''.'' ''.'' ''v1'' ''v2'' = Inr {''r/a''}" by code_simp
  from impact_deterministic [OF load same, of "''.''" "''v1''" "''v2''"] run
  have "getChangedPackages (?w\<lparr>packages_Load := (\<lambda>dir. Inr ?pkgs')\<rparr>) ''.'' ''.'' ''v1'' ''v2''
          = Inr {''r/a''}"
    by simp
  with load same run show ?thesis by blast
qed

end
